theory Spec2Isabelle
  imports Complex_Main "HOL-Library.Sublist" "HOL-Library.Word"
begin

section \<open>Python strings\<close>

text \<open>
  A Python \<^verbatim>\<open>str\<close> is modelled as a \<^typ>\<open>string\<close>. The operations below are the ones the
  two modules use: \<^verbatim>\<open>s.lower()\<close>, \<^verbatim>\<open>sub in s\<close>, \<^verbatim>\<open>s.strip()\<close>, \<^verbatim>\<open>str(n)\<close> for an integer
  and \<^verbatim>\<open>sep.join(xs)\<close>. Lower-casing and stripping are the ASCII ones; a character
  outside ASCII is left as it is.
\<close>

definition lower_char :: "char \<Rightarrow> char" where
  "lower_char c =
     (case map_of (zip ''ABCDEFGHIJKLMNOPQRSTUVWXYZ'' ''abcdefghijklmnopqrstuvwxyz'') c of
        Some d \<Rightarrow> d
      | None \<Rightarrow> c)"

definition lower :: "string \<Rightarrow> string" where
  "lower s = map lower_char s"

text \<open>\<^verbatim>\<open>sub in s\<close>: \<open>sub\<close> occurs in \<open>s\<close> as a contiguous run of characters.\<close>

fun contains :: "string \<Rightarrow> string \<Rightarrow> bool" where
  "contains sub [] = (sub = [])"
| "contains sub (c # cs) = (prefix sub (c # cs) \<or> contains sub cs)"

definition is_space :: "char \<Rightarrow> bool" where
  "is_space c = (c \<in> set [CHR '' '', CHR 0x09, CHR 0x0A, CHR 0x0B, CHR 0x0C, CHR 0x0D,
                           CHR 0x1C, CHR 0x1D, CHR 0x1E, CHR 0x1F])"

definition strip :: "string \<Rightarrow> string" where
  "strip s = rev (dropWhile is_space (rev (dropWhile is_space s)))"

definition digit_char :: "nat \<Rightarrow> char" where
  "digit_char n = ''0123456789'' ! n"

fun str_nat :: "nat \<Rightarrow> string" where
  "str_nat n = (if n < 10 then [digit_char n] else str_nat (n div 10) @ [digit_char (n mod 10)])"

declare str_nat.simps [simp del]

definition str_int :: "int \<Rightarrow> string" where
  "str_int i = (if i < 0 then CHR ''-'' # str_nat (nat (- i)) else str_nat (nat i))"

fun join :: "string \<Rightarrow> string list \<Rightarrow> string" where
  "join sep [] = []"
| "join sep [x] = x"
| "join sep (x # y # ys) = x @ sep @ join sep (y # ys)"

section \<open>checker.py\<close>

subsection \<open>Result model\<close>

record check_result =
  input_url :: string
  first_status_code :: string
  final_status_code :: string
  final_url :: string
  response_time_ms :: real
  redirect_count :: int
  redirect_chain :: string
  method_used :: string
  user_agent_used :: string
  soft_404 :: bool
  error :: string
  alt_status_code :: string
  alt_user_agent_used :: string

text \<open>\<^verbatim>\<open>CheckResult(input_url=url)\<close>: every other field takes its default.\<close>

definition CheckResult :: "string \<Rightarrow> check_result" where
  "CheckResult u =
     \<lparr>input_url = u, first_status_code = '''', final_status_code = '''', final_url = '''',
      response_time_ms = 0, redirect_count = 0, redirect_chain = '''', method_used = '''',
      user_agent_used = '''', soft_404 = False, error = '''', alt_status_code = '''',
      alt_user_agent_used = ''''\<rparr>"

subsection \<open>Error classification\<close>

text \<open>
  An exception, as far as \<^verbatim>\<open>_classify_error\<close> reads it: \<^verbatim>\<open>type(exc).__name__\<close> and
  \<^verbatim>\<open>str(exc)\<close>. The argument is \<^verbatim>\<open>last_exc\<close>, which is still \<^verbatim>\<open>None\<close> when the retry loop
  made no attempt; then the type name is \<^verbatim>\<open>NoneType\<close> and the text \<^verbatim>\<open>None\<close>.
\<close>

datatype exc = Exc (type_name: string) (message: string)

definition exc_name :: "exc option \<Rightarrow> string" where
  "exc_name x = (case x of None \<Rightarrow> ''NoneType'' | Some e \<Rightarrow> type_name e)"

definition exc_str :: "exc option \<Rightarrow> string" where
  "exc_str x = (case x of None \<Rightarrow> ''None'' | Some e \<Rightarrow> message e)"

definition classify_error :: "exc option \<Rightarrow> string" where
  "classify_error x =
     (let name = exc_name x; msg = lower (exc_str x) in
      if contains ''ssl'' (lower name) \<or> contains ''ssl'' msg then ''SSL_ERROR''
      else if contains ''timeout'' (lower name) \<or> contains ''timeout'' msg then ''TIMEOUT''
      else if contains ''dns'' msg \<or> contains ''name or service not known'' msg
              \<or> contains ''nodename nor servname'' msg then ''DNS_ERROR''
      else if contains ''connect'' (lower name) \<or> contains ''connect'' msg then ''CONNECT_ERROR''
      else if contains ''read'' (lower name) then ''READ_ERROR''
      else ''ERROR ('' @ name @ '')'')"

text \<open>The five tests of the cascade, each on its own.\<close>

definition ssl_match :: "exc option \<Rightarrow> bool" where
  "ssl_match x = (contains ''ssl'' (lower (exc_name x)) \<or> contains ''ssl'' (lower (exc_str x)))"

definition timeout_match :: "exc option \<Rightarrow> bool" where
  "timeout_match x =
     (contains ''timeout'' (lower (exc_name x)) \<or> contains ''timeout'' (lower (exc_str x)))"

definition dns_match :: "exc option \<Rightarrow> bool" where
  "dns_match x =
     (contains ''dns'' (lower (exc_str x))
      \<or> contains ''name or service not known'' (lower (exc_str x))
      \<or> contains ''nodename nor servname'' (lower (exc_str x)))"

definition connect_match :: "exc option \<Rightarrow> bool" where
  "connect_match x =
     (contains ''connect'' (lower (exc_name x)) \<or> contains ''connect'' (lower (exc_str x)))"

definition read_match :: "exc option \<Rightarrow> bool" where
  "read_match x = contains ''read'' (lower (exc_name x))"

subsection \<open>Responses\<close>

text \<open>
  An \<^verbatim>\<open>httpx.Response\<close>, with the attributes the checker reads: \<^verbatim>\<open>status_code\<close>, the status
  codes of the responses in \<^verbatim>\<open>history\<close> (oldest first), \<^verbatim>\<open>url\<close>, \<^verbatim>\<open>request.method\<close>, \<^verbatim>\<open>headers\<close>
  (header names in lower case, as the lookup ignores case) and \<^verbatim>\<open>text\<close>.

  The checker cuts the text after a number of characters, \<^verbatim>\<open>resp.text[:8000]\<close>, so the text
  is kept as the list of its characters, each one as the bytes of its UTF-8 encoding (one
  byte for an ASCII character); the string of a text is the concatenation of the list.
\<close>

record response =
  status_code :: int
  history :: "int list"
  resp_url :: string
  request_method :: string
  headers :: "(string \<times> string) list"
  resp_text :: "string list"

definition headers_get :: "(string \<times> string) list \<Rightarrow> string \<Rightarrow> string \<Rightarrow> string" where
  "headers_get hs key dflt = (case map_of hs key of None \<Rightarrow> dflt | Some v \<Rightarrow> v)"

definition SOFT_404_PATTERNS :: "string list" where
  "SOFT_404_PATTERNS =
     [''page not found'', ''404 not found'', ''404 error'', ''not found</title>'',
      ''<title>404'', ''does not exist'', ''no longer available'', ''page doesn't exist'',
      ''page does not exist'', ''we couldn't find'', ''we can't find'']"

definition detect_soft_404 :: "string \<Rightarrow> string \<Rightarrow> bool" where
  "detect_soft_404 content_type body_snippet =
     (if \<not> contains ''text/html'' content_type then False
      else list_ex (\<lambda>pat. contains pat (lower body_snippet)) SOFT_404_PATTERNS)"

text \<open>The separator of the redirect chain is the arrow U+2192, here as its UTF-8 bytes.\<close>

definition arrow :: string where
  "arrow = [CHR 0xE2, CHR 0x86, CHR 0x92]"

definition build_redirect_chain :: "response \<Rightarrow> string" where
  "build_redirect_chain resp =
     (if history resp = [] then str_int (status_code resp)
      else join arrow (map str_int (history resp) @ [str_int (status_code resp)]))"

definition get_first_status :: "response \<Rightarrow> string" where
  "get_first_status resp =
     (case history resp of [] \<Rightarrow> str_int (status_code resp) | c # _ \<Rightarrow> str_int c)"

definition method_from_resp :: "response \<Rightarrow> string" where
  "method_from_resp resp = request_method resp"

subsection \<open>The network and the clock\<close>

text \<open>
  Everything outside the program is a world \<open>'w\<close> that the effects read and change:
  \<^verbatim>\<open>client.request(method, url, headers=headers)\<close> returns a response or raises, and leaves a
  new world (the client carries the timeout and the follow-redirects flag of the run);
  \<^verbatim>\<open>time.perf_counter()\<close> reads the clock of the world, in seconds;
  \<^verbatim>\<open>random.uniform(a, b)\<close> draws a number; \<^verbatim>\<open>asyncio.sleep(d)\<close> lets the time pass.
  Times are real numbers: the rounding of floating-point arithmetic is not modelled.
\<close>

record ('w, 'h) net =
  request :: "string \<Rightarrow> string \<Rightarrow> 'h \<Rightarrow> 'w \<Rightarrow> (exc + response) \<times> 'w"
  perf_counter :: "'w \<Rightarrow> real"
  uniform :: "real \<Rightarrow> real \<Rightarrow> 'w \<Rightarrow> real \<times> 'w"
  sleep :: "real \<Rightarrow> 'w \<Rightarrow> 'w"

text \<open>
  What the two modules import from \<^verbatim>\<open>headers.py\<close> is a parameter of the model:
  \<^verbatim>\<open>make_headers\<close>, \<^verbatim>\<open>SAFARI_UA\<close> and the table \<^verbatim>\<open>UA_PRESETS\<close> (names and user-agent strings, in
  the order of the table). The type \<open>'h\<close> is that of a set of request headers.
\<close>

record 'h headers_py =
  make_headers :: "string \<Rightarrow> 'h"
  SAFARI_UA :: string
  UA_PRESETS :: "(string \<times> string) list"

subsection \<open>Core request logic\<close>

definition do_request ::
  "('w, 'h) net \<Rightarrow> string \<Rightarrow> 'h \<Rightarrow> bool \<Rightarrow> 'w \<Rightarrow> (exc + response) \<times> 'w" where
  "do_request client u hdrs head_then_get w =
     (if head_then_get then
        (case request client ''HEAD'' u hdrs w of
           (Inl e, w1) \<Rightarrow> (Inl e, w1)
         | (Inr resp, w1) \<Rightarrow>
             if status_code resp \<ge> 400 then request client ''GET'' u hdrs w1
             else (Inr resp, w1))
      else request client ''GET'' u hdrs w)"

subsection \<open>Single-URL check\<close>

text \<open>The arguments of \<^verbatim>\<open>_check_one\<close> that stay the same for every URL of a run.\<close>

record 'h check_args =
  primary_headers :: 'h
  primary_ua_label :: string
  head_then_get :: bool
  retries :: int
  safari_retry :: bool

text \<open>
  The body of the \<^verbatim>\<open>try\<close> once the primary probe has returned \<open>resp\<close> after \<open>elapsed\<close>
  milliseconds: the fields of the result, then the soft-404 detection (GET only).
\<close>

definition record_primary :: "check_result \<Rightarrow> response \<Rightarrow> real \<Rightarrow> string \<Rightarrow> check_result" where
  "record_primary result resp elapsed ua_label =
     (let result = result
            \<lparr>first_status_code := get_first_status resp,
             final_status_code := str_int (status_code resp),
             final_url := resp_url resp,
             response_time_ms := elapsed,
             redirect_count := int (length (history resp)),
             redirect_chain := build_redirect_chain resp,
             method_used := method_from_resp resp,
             user_agent_used := ua_label\<rparr>
      in if method_used result = ''GET'' \<and> status_code resp = 200
         then result\<lparr>soft_404 :=
                detect_soft_404 (headers_get (headers resp) ''content-type'' [])
                  (concat (take 8000 (resp_text resp)))\<rparr>
         else result)"

text \<open>The assignments made when the Safari probe got a better result.\<close>

definition promote :: "check_result \<Rightarrow> response \<Rightarrow> check_result" where
  "promote result alt_resp =
     result
       \<lparr>first_status_code := get_first_status alt_resp,
        final_status_code := str_int (status_code alt_resp),
        final_url := resp_url alt_resp,
        redirect_count := int (length (history alt_resp)),
        redirect_chain := build_redirect_chain alt_resp,
        method_used := method_from_resp alt_resp,
        user_agent_used := ''Safari macOS (retry)''\<rparr>"

text \<open>
  The Safari retry on 403/404. An exception of the second probe is swallowed
  (\<^verbatim>\<open>except Exception: pass\<close>); the result is returned in either case.
\<close>

definition safari_fallback ::
  "('w, 'h) net \<Rightarrow> 'h headers_py \<Rightarrow> string \<Rightarrow> 'h check_args \<Rightarrow> check_result \<Rightarrow> response \<Rightarrow> 'w
     \<Rightarrow> check_result \<times> 'w" where
  "safari_fallback client hp u args result resp w =
     (if safari_retry args \<and> (status_code resp = 403 \<or> status_code resp = 404) then
        (let safari_headers = make_headers hp (SAFARI_UA hp) in
         case do_request client u safari_headers (head_then_get args) w of
           (Inr alt_resp, w1) \<Rightarrow>
             (let result = result
                    \<lparr>alt_status_code := str_int (status_code alt_resp),
                     alt_user_agent_used := ''Safari macOS''\<rparr>
              in (if status_code alt_resp < 400 then promote result alt_resp else result, w1))
         | (Inl e, w1) \<Rightarrow> (result, w1))
      else (result, w))"

definition on_response ::
  "('w, 'h) net \<Rightarrow> 'h headers_py \<Rightarrow> string \<Rightarrow> 'h check_args \<Rightarrow> check_result \<Rightarrow> response \<Rightarrow> real
     \<Rightarrow> 'w \<Rightarrow> check_result \<times> 'w" where
  "on_response client hp u args result resp elapsed w =
     safari_fallback client hp u args
       (record_primary result resp elapsed (primary_ua_label args)) resp w"

text \<open>The sleep between two attempts: exponential backoff with jitter.\<close>

definition backoff_sleep :: "('w, 'h) net \<Rightarrow> int \<Rightarrow> 'w \<Rightarrow> 'w" where
  "backoff_sleep client attempt w =
     (let (jitter, w1) = uniform client 0 0.3 w;
          backoff = 0.5 * 2 ^ nat attempt + jitter
      in sleep client backoff w1)"

text \<open>The result after the loop: all attempts exhausted.\<close>

definition exhausted :: "'h check_args \<Rightarrow> check_result \<Rightarrow> exc option \<Rightarrow> real \<Rightarrow> check_result" where
  "exhausted args result last_exc elapsed =
     (let error_label = classify_error last_exc in
      result\<lparr>final_status_code := error_label,
             error := error_label,
             response_time_ms := elapsed,
             user_agent_used := primary_ua_label args\<rparr>)"

text \<open>
  The loop \<^verbatim>\<open>for attempt in range(1 + retries)\<close>, from \<open>attempt\<close> on, with the current values
  of \<^verbatim>\<open>last_exc\<close> and \<^verbatim>\<open>elapsed\<close>. Only the requests raise inside the \<^verbatim>\<open>try\<close>; the handler
  \<^verbatim>\<open>except Exception\<close> catches whatever they raise.
\<close>

function check_one_loop ::
  "('w, 'h) net \<Rightarrow> 'h headers_py \<Rightarrow> string \<Rightarrow> 'h check_args \<Rightarrow> check_result \<Rightarrow> int
     \<Rightarrow> exc option \<Rightarrow> real \<Rightarrow> 'w \<Rightarrow> check_result \<times> 'w" where
  "check_one_loop client hp u args result attempt last_exc elapsed w =
     (if attempt < 1 + retries args then
        (let t0 = perf_counter client w in
         case do_request client u (primary_headers args) (head_then_get args) w of
           (Inr resp, w1) \<Rightarrow>
             on_response client hp u args result resp
               ((perf_counter client w1 - t0) * 1000) w1
         | (Inl e, w1) \<Rightarrow>
             check_one_loop client hp u args result (attempt + 1) (Some e)
               ((perf_counter client w1 - t0) * 1000)
               (if attempt < retries args then backoff_sleep client attempt w1 else w1))
      else (exhausted args result last_exc elapsed, w))"
  by pat_completeness auto
termination
  by (relation "measure (\<lambda>(client, hp, u, args, result, attempt, last_exc, elapsed, w).
        nat (1 + retries args - attempt))") auto

declare check_one_loop.simps [simp del]

definition check_one ::
  "('w, 'h) net \<Rightarrow> 'h headers_py \<Rightarrow> string \<Rightarrow> 'h check_args \<Rightarrow> 'w \<Rightarrow> check_result \<times> 'w" where
  "check_one client hp u args w =
     check_one_loop client hp u args (CheckResult u) 0 None 0 w"

subsection \<open>Public API\<close>

text \<open>
  What a call does other than return: \<^verbatim>\<open>UA_PRESETS[...]\<close> raises \<^verbatim>\<open>KeyError\<close> on a missing
  key, \<^verbatim>\<open>asyncio.Semaphore\<close> raises \<^verbatim>\<open>ValueError\<close> on a negative value, and
  \<^verbatim>\<open>gzip.decompress\<close> (in the resolver) raises on a broken stream. With a semaphore of
  value 0 no task is ever admitted and \<^verbatim>\<open>gather\<close> waits for ever.
\<close>

datatype py_error = KeyError | ValueError | GzipError

datatype 'a outcome = Returns 'a | Raises py_error | Blocks

text \<open>
  The tasks of \<^verbatim>\<open>_run\<close>, one \<^verbatim>\<open>_wrapped(u)\<close> for each URL; \<^verbatim>\<open>gather\<close> returns their results in
  the order of the URLs. The tasks are run here one after the other, each from the world
  the one before left. The progress callback, when given, is an effect on the world.
\<close>

fun run_tasks ::
  "('w, 'h) net \<Rightarrow> 'h headers_py \<Rightarrow> 'h check_args \<Rightarrow> (int \<Rightarrow> int \<Rightarrow> 'w \<Rightarrow> 'w) option \<Rightarrow> int
     \<Rightarrow> string list \<Rightarrow> int \<Rightarrow> 'w \<Rightarrow> check_result list \<times> 'w" where
  "run_tasks client hp args progress_callback n_total [] done_count w = ([], w)"
| "run_tasks client hp args progress_callback n_total (u # us) done_count w =
     (let (r, w1) = check_one client hp u args w;
          done_count = done_count + 1;
          w2 = (case progress_callback of None \<Rightarrow> w1 | Some cb \<Rightarrow> cb done_count n_total w1);
          (rs, w3) = run_tasks client hp args progress_callback n_total us done_count w2
      in (r # rs, w3))"

text \<open>
  \<^verbatim>\<open>_run\<close>, up to the conversion of each result by \<^verbatim>\<open>to_dict\<close>, which copies the fields
  (and rounds the response time to one decimal).
\<close>

definition run ::
  "('w, 'h) net \<Rightarrow> 'h headers_py \<Rightarrow> string list \<Rightarrow> int \<Rightarrow> bool \<Rightarrow> int \<Rightarrow> string \<Rightarrow> bool
     \<Rightarrow> (int \<Rightarrow> int \<Rightarrow> 'w \<Rightarrow> 'w) option \<Rightarrow> 'w \<Rightarrow> check_result list outcome \<times> 'w" where
  "run client hp urls concurrency htg n_retries user_agent safari progress_callback w =
     (case (if user_agent = [] then map_of (UA_PRESETS hp) ''Chrome macOS (default)''
            else Some user_agent) of
        None \<Rightarrow> (Raises KeyError, w)
      | Some ua \<Rightarrow>
          (let ua_label = (case find (\<lambda>(name, val). val = ua) (UA_PRESETS hp) of
                             Some (name, val) \<Rightarrow> name
                           | None \<Rightarrow> ''Custom'');
               args = \<lparr>primary_headers = make_headers hp ua, primary_ua_label = ua_label,
                       head_then_get = htg, retries = n_retries, safari_retry = safari\<rparr>
           in if concurrency < 0 then (Raises ValueError, w)
              else if concurrency = 0 \<and> urls \<noteq> [] then (Blocks, w)
              else (let (results, w1) =
                          run_tasks client hp args progress_callback (int (length urls)) urls 0 w
                    in (Returns results, w1))))"

section \<open>sitemap.py\<close>

subsection \<open>Helpers\<close>

definition MAX_DEPTH :: int where
  "MAX_DEPTH = 3"

definition strip_ns :: "string \<Rightarrow> string" where
  "strip_ns t = (if CHR ''}'' \<in> set t then tl (dropWhile (\<lambda>c. c \<noteq> CHR ''}'') t) else t)"

text \<open>
  Raw content is a list of bytes. \<^verbatim>\<open>gzip.decompress\<close> and \<^verbatim>\<open>etree.fromstring\<close> (with the
  recovering parser that drops comments) are library functions, taken as parameters:
  decompression gives the content or raises; parsing raises, gives no root, or gives a
  root element. An element is its tag, its text (or \<^verbatim>\<open>None\<close>) and its child elements.
\<close>

type_synonym bytes = "8 word list"

datatype element = Element (el_tag: string) (el_text: "string option") (el_children: "element list")

datatype parsed = ParseRaised exc | NoRoot | Root element

definition decompress_if_gz :: "(bytes \<Rightarrow> bytes option) \<Rightarrow> bytes \<Rightarrow> py_error + bytes" where
  "decompress_if_gz gzip_decompress data =
     (if take 2 data = [0x1f, 0x8b]
      then (case gzip_decompress data of None \<Rightarrow> Inl GzipError | Some d \<Rightarrow> Inr d)
      else Inr data)"

definition parse_xml :: "(bytes \<Rightarrow> parsed) \<Rightarrow> bytes \<Rightarrow> parsed" where
  "parse_xml etree_fromstring data =
     etree_fromstring (if take 3 data = [0xef, 0xbb, 0xbf] then drop 3 data else data)"

subsection \<open>The resolver\<close>

text \<open>
  The world of the resolver: \<^verbatim>\<open>httpx.get\<close> followed by \<^verbatim>\<open>raise_for_status\<close> gives the content of
  a URL or raises; the progress callback, when given, is an effect on the world.
\<close>

record ('w, 'h) web =
  http_get :: "string \<Rightarrow> 'h \<Rightarrow> 'w \<Rightarrow> (exc + bytes) \<times> 'w"
  gzip_decompress :: "bytes \<Rightarrow> bytes option"
  etree_fromstring :: "bytes \<Rightarrow> parsed"
  progress_callback :: "(string \<Rightarrow> 'w \<Rightarrow> 'w) option"

text \<open>
  Two messages of the resolver have characters outside ASCII, here as their UTF-8 bytes: an
  en dash (U+2013), and a warning sign with its variation selector (U+26A0, U+FE0F).
\<close>

definition en_dash :: string where
  "en_dash = [CHR 0xE2, CHR 0x80, CHR 0x93]"

definition warning_sign :: string where
  "warning_sign = [CHR 0xE2, CHR 0x9A, CHR 0xA0, CHR 0xEF, CHR 0xB8, CHR 0x8F]"

definition notify :: "('w, 'h) web \<Rightarrow> string \<Rightarrow> 'w \<Rightarrow> 'w" where
  "notify web msg w = (case progress_callback web of None \<Rightarrow> w | Some cb \<Rightarrow> cb msg w)"

datatype source = Bytes bytes | Url string

text \<open>
  Step 1, obtain the raw bytes: the content, or nothing when the function returns the empty
  list at once (URL already visited, or fetch failed); with the visited set as it is then.
\<close>

definition acquire ::
  "('w, 'h) web \<Rightarrow> 'h \<Rightarrow> source \<Rightarrow> string set \<Rightarrow> 'w \<Rightarrow> bytes option \<times> string set \<times> 'w" where
  "acquire web fetch_headers src visited w =
     (case src of
        Bytes raw \<Rightarrow> (Some raw, visited, w)
      | Url s \<Rightarrow>
          (let u = strip s in
           if u \<in> visited then (None, visited, w)
           else
             (let visited1 = insert u visited;
                  w1 = notify web (''Fetching '' @ u) w
              in case http_get web u fetch_headers w1 of
                   (Inr raw, w2) \<Rightarrow> (Some raw, visited1, w2)
                 | (Inl e, w2) \<Rightarrow>
                     (None, visited1,
                      notify web (''Failed to fetch '' @ u @ '': '' @ message e) w2))))"

text \<open>
  The texts of the \<^verbatim>\<open>loc\<close> children of the children of the root with tag \<open>kind\<close>, stripped, in
  document order: what the two nested \<^verbatim>\<open>for\<close> loops of either branch go through.
\<close>

definition loc_texts :: "string \<Rightarrow> element \<Rightarrow> string list" where
  "loc_texts kind root_el =
     concat (map (\<lambda>child.
         if strip_ns (el_tag child) = kind
         then concat (map (\<lambda>loc_el.
                 case el_text loc_el of
                   Some t \<Rightarrow> if strip_ns (el_tag loc_el) = ''loc'' \<and> t \<noteq> [] then [strip t] else []
                 | None \<Rightarrow> [])
               (el_children child))
         else [])
       (el_children root_el))"

text \<open>
  \<^verbatim>\<open>if u not in seen_order: seen_order[u] = None; urls.append(u)\<close>, for each \<open>u\<close> of a list;
  \<^verbatim>\<open>seen_order\<close> is a dictionary used for its keys.
\<close>

fun add_unique :: "string list \<Rightarrow> string list \<times> string set \<Rightarrow> string list \<times> string set" where
  "add_unique [] (urls, seen_order) = (urls, seen_order)"
| "add_unique (u # us) (urls, seen_order) =
     (if u \<notin> seen_order then add_unique us (urls @ [u], insert u seen_order)
      else add_unique us (urls, seen_order))"

text \<open>
  The arguments of a call: of \<^verbatim>\<open>parse_sitemap\<close> (left), or of the loop of its index branch
  (right). The measure that decreases from a call to the calls it makes: the depths left
  up to the bound, then the loop below the function, then the locations left.
\<close>

type_synonym ('w, 'h) call =
  "('w, 'h) web \<times> 'h headers_py \<times> source \<times> string \<times> string set \<times> int \<times> 'w +
   ('w, 'h) web \<times> 'h headers_py \<times> string list \<times> string \<times> int \<times> string list \<times> string set
     \<times> string set \<times> 'w"

definition call_measure :: "('w, 'h) call \<Rightarrow> nat \<times> nat \<times> nat" where
  "call_measure c =
     (case c of
        Inl (web, hp, src, user_agent, visited, depth, w) \<Rightarrow>
          (nat (MAX_DEPTH + 1 - depth), 1, 0)
      | Inr (web, hp, locs, ua, depth, urls, seen_order, visited, w) \<Rightarrow>
          (nat (MAX_DEPTH + 1 - depth), 0, length locs))"

text \<open>
  \<^verbatim>\<open>parse_sitemap\<close>, and the loop of its \<^verbatim>\<open>sitemapindex\<close> branch over the locations that remain,
  with the lists accumulated so far. The result is the list of URLs or the exception that
  leaves the function, with the visited set and the world at that moment.
\<close>

function parse_sitemap ::
    "('w, 'h) web \<Rightarrow> 'h headers_py \<Rightarrow> source \<Rightarrow> string \<Rightarrow> string set \<Rightarrow> int \<Rightarrow> 'w
       \<Rightarrow> (py_error + string list) \<times> string set \<times> 'w"
  and index_children ::
    "('w, 'h) web \<Rightarrow> 'h headers_py \<Rightarrow> string list \<Rightarrow> string \<Rightarrow> int \<Rightarrow> string list \<Rightarrow> string set
       \<Rightarrow> string set \<Rightarrow> 'w \<Rightarrow> (py_error + string list) \<times> string set \<times> 'w" where
  "parse_sitemap web hp src user_agent visited depth w =
     (case (if user_agent = [] then map_of (UA_PRESETS hp) ''Chrome macOS (default)''
            else Some user_agent) of
        None \<Rightarrow> (Inl KeyError, visited, w)
      | Some ua \<Rightarrow>
          (case acquire web (make_headers hp ua) src visited w of
             (None, visited1, w1) \<Rightarrow> (Inr [], visited1, w1)
           | (Some raw, visited1, w1) \<Rightarrow>
               (case decompress_if_gz (gzip_decompress web) raw of
                  Inl err \<Rightarrow> (Inl err, visited1, w1)
                | Inr xml \<Rightarrow>
                    (case parse_xml (etree_fromstring web) xml of
                       ParseRaised e \<Rightarrow>
                         (Inr [], visited1, notify web (''XML parse error: '' @ message e) w1)
                     | NoRoot \<Rightarrow>
                         (Inr [], visited1,
                          notify web
                            (''XML parse returned empty document '' @ en_dash
                               @ '' check the sitemap source.'') w1)
                     | Root root_el \<Rightarrow>
                         (if strip_ns (el_tag root_el) = ''sitemapindex''
                          then index_children web hp (loc_texts ''sitemap'' root_el) ua depth [] {}
                                 visited1 w1
                          else if strip_ns (el_tag root_el) = ''urlset''
                          then (Inr (fst (add_unique (loc_texts ''url'' root_el) ([], {}))),
                                visited1, w1)
                          else (Inr [], visited1,
                                notify web
                                  (warning_sign @ '' Unknown root element: <'' @ strip_ns (el_tag root_el)
                                     @ ''>'')
                                  w1))))))"
| "index_children web hp [] ua depth urls seen_order visited w = (Inr urls, visited, w)"
| "index_children web hp (child_url # rest) ua depth urls seen_order visited w =
     (if depth + 1 \<le> MAX_DEPTH \<and> child_url \<notin> visited then
        (case parse_sitemap web hp (Url child_url) ua visited (depth + 1) w of
           (Inl err, visited1, w1) \<Rightarrow> (Inl err, visited1, w1)
         | (Inr child_urls, visited1, w1) \<Rightarrow>
             (case add_unique child_urls (urls, seen_order) of
                (urls1, seen_order1) \<Rightarrow>
                  index_children web hp rest ua depth urls1 seen_order1 visited1 w1))
      else index_children web hp rest ua depth urls seen_order visited w)"
  by pat_completeness auto
termination
  by (relation "inv_image (less_than <*lex*> less_than <*lex*> less_than) call_measure")
    (auto simp: call_measure_def MAX_DEPTH_def)

declare parse_sitemap.simps [simp del]

section \<open>Vocabulary of the properties\<close>

text \<open>A three-digit numeric status string.\<close>

definition is_digit :: "char \<Rightarrow> bool" where
  "is_digit c = (c \<in> set ''0123456789'')"

definition is_http_status :: "string \<Rightarrow> bool" where
  "is_http_status s = (length s = 3 \<and> list_all is_digit s)"

text \<open>
  The error labels: the five fixed ones, and the generic label \<^verbatim>\<open>ERROR (<kind>)\<close> with the
  kind name of the exception between the parentheses.
\<close>

definition generic_error_label :: "string \<Rightarrow> bool" where
  "generic_error_label s = (take 7 s = ''ERROR ('' \<and> 8 \<le> length s \<and> last s = CHR '')'')"

definition error_taxonomy :: "string \<Rightarrow> bool" where
  "error_taxonomy s =
     (s \<in> set [''SSL_ERROR'', ''TIMEOUT'', ''DNS_ERROR'', ''CONNECT_ERROR'', ''READ_ERROR'']
      \<or> generic_error_label s)"

text \<open>The segments of a redirect chain: what \<^verbatim>\<open>chain.split(arrow)\<close> gives.\<close>

definition cons_first :: "char \<Rightarrow> string list \<Rightarrow> string list" where
  "cons_first a xss = (case xss of [] \<Rightarrow> [[a]] | x # xs \<Rightarrow> (a # x) # xs)"

function segments :: "string \<Rightarrow> string list" where
  "segments [] = [[]]"
| "segments (a # s) =
     (if prefix arrow (a # s) then [] # segments (drop 3 (a # s))
      else cons_first a (segments s))"
  by pat_completeness auto
termination
  by (relation "measure length") auto




text \<open>
  Servers for the examples. The world is the clock, in seconds; a server answers a request
  (method, URL, headers) with an outcome and the time the exchange takes. The headers of
  an identity are its user-agent string.
\<close>

definition server :: "(string \<Rightarrow> string \<Rightarrow> string \<Rightarrow> (exc + response) \<times> real) \<Rightarrow> (real, string) net" where
  "server f =
     \<lparr>request = (\<lambda>m u h w. case f m u h of (out, d) \<Rightarrow> (out, w + d)),
      perf_counter = (\<lambda>w. w),
      uniform = (\<lambda>a b w. (a, w)),
      sleep = (\<lambda>d w. w + d)\<rparr>"

definition demo_headers :: "string headers_py" where
  "demo_headers =
     \<lparr>make_headers = (\<lambda>ua. ua), SAFARI_UA = ''Safari'',
      UA_PRESETS = [(''Chrome macOS (default)'', ''Chrome''), (''Safari macOS'', ''Safari'')]\<rparr>"

definition demo_args :: "string check_args" where
  "demo_args =
     \<lparr>primary_headers = ''Chrome'', primary_ua_label = ''Chrome macOS (default)'',
      head_then_get = False, retries = 1, safari_retry = True\<rparr>"

definition page :: "int \<Rightarrow> string \<Rightarrow> string \<Rightarrow> string \<Rightarrow> response" where
  "page code m u body =
     \<lparr>status_code = code, history = [], resp_url = u, request_method = m,
      headers = [(''content-type'', ''text/html; charset=utf-8'')],
      resp_text = map (\<lambda>c. [c]) body\<rparr>"

text \<open>Every request times out after 15 seconds.\<close>

definition timeout_server :: "(real, string) net" where
  "timeout_server = server (\<lambda>m u h. (Inl (Exc ''ReadTimeout'' ''''), 15))"



text \<open>
  The primary identity gets a 404 after 0.01 seconds; Safari gets, after 0.05 seconds, a
  200 whose page says that the page was not found.
\<close>

definition picky_server :: "(real, string) net" where
  "picky_server =
     server (\<lambda>m u h.
       if h = ''Safari'' then (Inr (page 200 m u ''<h1>Page Not Found</h1>''), 5 / 100)
       else (Inr (page 404 m u ''gone''), 1 / 100))"


text \<open>The results of one URL checked against the two servers, from time 0.\<close>

definition timed_out :: check_result where
  "timed_out = fst (check_one timeout_server demo_headers ''https://example.com/a'' demo_args 0)"

definition promoted :: check_result where
  "promoted = fst (check_one picky_server demo_headers ''https://example.com/a'' demo_args 0)"

subsection \<open>Vocabulary of the resolver's properties\<close>

text \<open>A list without its repetitions, each element at the place where it is first seen.\<close>

definition first_seen :: "'a list \<Rightarrow> 'a list" where
  "first_seen xs = rev (remdups (rev xs))"

text \<open>
  The depth-first traversal in document order, as the claim about the order words it: the
  walk of \<^verbatim>\<open>parse_sitemap\<close> with the same fetches, guards and failures, that lists every
  location it comes across, repetitions included. A \<^verbatim>\<open>urlset\<close> gives its locations, an index
  the traversals of the children it resolves, one after the other.
\<close>

function raw_sitemap ::
    "('w, 'h) web \<Rightarrow> 'h headers_py \<Rightarrow> source \<Rightarrow> string \<Rightarrow> string set \<Rightarrow> int \<Rightarrow> 'w
       \<Rightarrow> (py_error + string list) \<times> string set \<times> 'w"
  and raw_children ::
    "('w, 'h) web \<Rightarrow> 'h headers_py \<Rightarrow> string list \<Rightarrow> string \<Rightarrow> int \<Rightarrow> string list
       \<Rightarrow> string set \<Rightarrow> 'w \<Rightarrow> (py_error + string list) \<times> string set \<times> 'w" where
  "raw_sitemap web hp src user_agent visited depth w =
     (case (if user_agent = [] then map_of (UA_PRESETS hp) ''Chrome macOS (default)''
            else Some user_agent) of
        None \<Rightarrow> (Inl KeyError, visited, w)
      | Some ua \<Rightarrow>
          (case acquire web (make_headers hp ua) src visited w of
             (None, visited1, w1) \<Rightarrow> (Inr [], visited1, w1)
           | (Some raw, visited1, w1) \<Rightarrow>
               (case decompress_if_gz (gzip_decompress web) raw of
                  Inl err \<Rightarrow> (Inl err, visited1, w1)
                | Inr xml \<Rightarrow>
                    (case parse_xml (etree_fromstring web) xml of
                       ParseRaised e \<Rightarrow>
                         (Inr [], visited1, notify web (''XML parse error: '' @ message e) w1)
                     | NoRoot \<Rightarrow>
                         (Inr [], visited1,
                          notify web
                            (''XML parse returned empty document '' @ en_dash
                               @ '' check the sitemap source.'') w1)
                     | Root root_el \<Rightarrow>
                         (if strip_ns (el_tag root_el) = ''sitemapindex''
                          then raw_children web hp (loc_texts ''sitemap'' root_el) ua depth []
                                 visited1 w1
                          else if strip_ns (el_tag root_el) = ''urlset''
                          then (Inr (loc_texts ''url'' root_el), visited1, w1)
                          else (Inr [], visited1,
                                notify web
                                  (warning_sign @ '' Unknown root element: <'' @ strip_ns (el_tag root_el)
                                     @ ''>'')
                                  w1))))))"
| "raw_children web hp [] ua depth seq visited w = (Inr seq, visited, w)"
| "raw_children web hp (child_url # rest) ua depth seq visited w =
     (if depth + 1 \<le> MAX_DEPTH \<and> child_url \<notin> visited then
        (case raw_sitemap web hp (Url child_url) ua visited (depth + 1) w of
           (Inl err, visited1, w1) \<Rightarrow> (Inl err, visited1, w1)
         | (Inr child_seq, visited1, w1) \<Rightarrow>
             raw_children web hp rest ua depth (seq @ child_seq) visited1 w1)
      else raw_children web hp rest ua depth seq visited w)"
  by pat_completeness auto
termination
  by (relation "inv_image (less_than <*lex*> less_than <*lex*> less_than)
        (\<lambda>x. case x of
           Inl (web, hp, src, user_agent, visited, depth, w) \<Rightarrow>
             (nat (MAX_DEPTH + 1 - depth), 1, 0)
         | Inr (web, hp, locs, ua, depth, seq, visited, w) \<Rightarrow>
             (nat (MAX_DEPTH + 1 - depth), 0, length locs))")
    (auto simp: MAX_DEPTH_def)

declare raw_sitemap.simps [simp del]

definition on_urls ::
  "(string list \<Rightarrow> string list) \<Rightarrow> (py_error + string list) \<times> string set \<times> 'w
     \<Rightarrow> (py_error + string list) \<times> string set \<times> 'w" where
  "on_urls f res =
     (case res of (Inl err, visited, w) \<Rightarrow> (Inl err, visited, w)
                | (Inr urls, visited, w) \<Rightarrow> (Inr (f urls), visited, w))"

text \<open>The depth of a call of \<^verbatim>\<open>parse_sitemap\<close>, or of the loop of its index branch.\<close>

definition call_depth :: "('w, 'h) call \<Rightarrow> int" where
  "call_depth c =
     (case c of
        Inl (web, hp, src, user_agent, visited, depth, w) \<Rightarrow> depth
      | Inr (web, hp, locs, ua, depth, urls, seen_order, visited, w) \<Rightarrow> depth)"

text \<open>
  A web that keeps a log of the fetches: the world of \<open>web\<close> together with the URLs given to
  \<^verbatim>\<open>httpx.get\<close> so far, in the order of the calls.
\<close>

definition logging :: "('w, 'h) web \<Rightarrow> ('w \<times> string list, 'h) web" where
  "logging web =
     \<lparr>http_get = (\<lambda>u h (w, trace). case http_get web u h w of (out, w1) \<Rightarrow> (out, (w1, trace @ [u]))),
      gzip_decompress = gzip_decompress web,
      etree_fromstring = etree_fromstring web,
      progress_callback =
        map_option (\<lambda>cb msg (w, trace). (cb msg w, trace)) (progress_callback web)\<rparr>"

text \<open>Every URL of the log was fetched once, and is in the visited set.\<close>

definition fetched_once :: "string set \<Rightarrow> 'w \<times> string list \<Rightarrow> bool" where
  "fetched_once visited wl = (distinct (snd wl) \<and> set (snd wl) \<subseteq> visited)"

text \<open>
  A web of this kind: a fetch of \<open>u\<close> adds \<open>u\<close> at the end of the log, and the progress
  callback leaves the log as it is.
\<close>

definition keeps_log :: "('w \<times> string list, 'h) web \<Rightarrow> bool" where
  "keeps_log web =
     ((\<forall>u h wl. snd (snd (http_get web u h wl)) = snd wl @ [u]) \<and>
      (\<forall>cb msg wl. progress_callback web = Some cb \<longrightarrow> snd (cb msg wl) = snd wl))"

text \<open>
  What a step of the resolver keeps, from the visited set and the world before it to its
  result: the log stays free of repetitions and inside the visited set, and neither the
  visited set nor the log loses an entry.
\<close>

definition run_keeps ::
  "string set \<Rightarrow> 'w \<times> string list \<Rightarrow> 'r \<times> string set \<times> 'w \<times> string list \<Rightarrow> bool" where
  "run_keeps visited wl res =
     (fetched_once (fst (snd res)) (snd (snd res)) \<and> visited \<subseteq> fst (snd res) \<and>
      prefix (snd wl) (snd (snd (snd res))))"

text \<open>
  Documents for the examples, with the namespace of the sitemap protocol. The world of a
  site is the number of fetches made; a URL without a page fails with a 404.
\<close>

definition ns :: "string \<Rightarrow> string" where
  "ns name = ''{http://www.sitemaps.org/schemas/sitemap/0.9}'' @ name"

definition entry :: "string \<Rightarrow> string \<Rightarrow> element" where
  "entry kind loc = Element (ns kind) None [Element (ns ''loc'') (Some loc) []]"

definition urlset_doc :: "string list \<Rightarrow> element" where
  "urlset_doc locs = Element (ns ''urlset'') None (map (entry ''url'') locs)"

definition index_doc :: "string list \<Rightarrow> element" where
  "index_doc locs = Element (ns ''sitemapindex'') None (map (entry ''sitemap'') locs)"

definition site :: "(string \<times> bytes) list \<Rightarrow> (bytes \<times> element) list \<Rightarrow> (nat, string) web" where
  "site pages docs =
     \<lparr>http_get = (\<lambda>u h w. (case map_of pages u of
                               Some b \<Rightarrow> Inr b
                             | None \<Rightarrow> Inl (Exc ''HTTPStatusError'' ''404 Not Found''),
                             Suc w)),
      gzip_decompress = (\<lambda>b. None),
      etree_fromstring = (\<lambda>b. case map_of docs b of Some e \<Rightarrow> Root e | None \<Rightarrow> NoRoot),
      progress_callback = None\<rparr>"

text \<open>
  Scenario A: an uploaded \<^verbatim>\<open>urlset\<close> with three different locations, the first of them
  listed twice.
\<close>

definition scenario_a :: "(nat, string) web" where
  "scenario_a =
     site []
       [([0x3c, 0x75],
         urlset_doc [''https://example.com/a'', '' https://example.com/b '',
                     ''https://example.com/a'', ''https://example.com/c''])]"

text \<open>
  Two indexes that refer to each other and to themselves, a \<^verbatim>\<open>urlset\<close> they both list, and a
  sitemap that cannot be fetched, listed twice.
\<close>

definition tangled :: "(nat, string) web" where
  "tangled =
     site
       [(''https://example.com/A.xml'', [0x41]), (''https://example.com/B.xml'', [0x42]),
        (''https://example.com/U.xml'', [0x55])]
       [([0x41], index_doc [''https://example.com/B.xml'', ''https://example.com/A.xml'',
                            ''https://example.com/U.xml'', ''https://example.com/X.xml'',
                            ''https://example.com/X.xml'']),
        ([0x42], index_doc [''https://example.com/A.xml'', ''https://example.com/B.xml'',
                            ''https://example.com/U.xml'']),
        ([0x55], urlset_doc [''https://example.com/1'', ''https://example.com/2'',
                             ''https://example.com/1''])]"

section \<open>Error classification is a priority cascade\<close>

lemma classify_error_unfold:
  "classify_error x =
     (if ssl_match x then ''SSL_ERROR''
      else if timeout_match x then ''TIMEOUT''
      else if dns_match x then ''DNS_ERROR''
      else if connect_match x then ''CONNECT_ERROR''
      else if read_match x then ''READ_ERROR''
      else ''ERROR ('' @ exc_name x @ '')'')"
  by (simp add: classify_error_def ssl_match_def timeout_match_def dns_match_def
      connect_match_def read_match_def Let_def)

text \<open>
  C5. \<^verbatim>\<open>_classify_error\<close> gives every exception one label, and the label is decided by the
  first test that matches, in the order SSL, timeout, DNS, connect, read, generic: a label is
  returned exactly when its own test matches and none of the earlier ones does. The generic
  label carries the exception's type name.
\<close>

theorem classify_error_cascade:
  "(classify_error x = ''SSL_ERROR'' \<longleftrightarrow> ssl_match x) \<and>
   (classify_error x = ''TIMEOUT'' \<longleftrightarrow> \<not> ssl_match x \<and> timeout_match x) \<and>
   (classify_error x = ''DNS_ERROR'' \<longleftrightarrow> \<not> ssl_match x \<and> \<not> timeout_match x \<and> dns_match x) \<and>
   (classify_error x = ''CONNECT_ERROR'' \<longleftrightarrow>
      \<not> ssl_match x \<and> \<not> timeout_match x \<and> \<not> dns_match x \<and> connect_match x) \<and>
   (classify_error x = ''READ_ERROR'' \<longleftrightarrow>
      \<not> ssl_match x \<and> \<not> timeout_match x \<and> \<not> dns_match x \<and> \<not> connect_match x \<and> read_match x) \<and>
   (classify_error x = ''ERROR ('' @ exc_name x @ '')'' \<longleftrightarrow>
      \<not> ssl_match x \<and> \<not> timeout_match x \<and> \<not> dns_match x \<and> \<not> connect_match x \<and> \<not> read_match x)"
  by (simp add: classify_error_unfold)

section \<open>Facts about the string operations\<close>

lemma digit_char_is_digit: "k < 10 \<Longrightarrow> is_digit (digit_char k)"
  unfolding is_digit_def digit_char_def by (rule nth_mem) simp

lemma str_nat_digits: "list_all is_digit (str_nat n)"
proof (induction n rule: str_nat.induct)
  case (1 n)
  show ?case
  proof (cases "n < 10")
    case True
    then show ?thesis by (simp add: str_nat.simps [of n] digit_char_is_digit)
  next
    case False
    with 1 show ?thesis by (simp add: str_nat.simps [of n] digit_char_is_digit)
  qed
qed



lemma str_nat_three:
  assumes "100 \<le> n" and "n \<le> 999"
  shows "length (str_nat n) = 3"
proof -
  have "\<not> n < 10" and "\<not> n div 10 < 10" and "n div 10 div 10 < 10"
    using assms by arith+
  then show ?thesis
    by (simp add: str_nat.simps [of n] str_nat.simps [of "n div 10"]
        str_nat.simps [of "n div 10 div 10"])
qed

lemma str_int_status: "100 \<le> i \<Longrightarrow> i \<le> 999 \<Longrightarrow> is_http_status (str_int i)"
  by (simp add: is_http_status_def str_int_def str_nat_digits str_nat_three)

lemma is_digit_not_E2: "is_digit c \<Longrightarrow> c \<noteq> CHR 0xE2"
  by (auto simp: is_digit_def)

lemma str_int_no_E2: "CHR 0xE2 \<notin> set (str_int i)"
proof -
  have "CHR 0xE2 \<notin> set (str_nat n)" for n
    using str_nat_digits [of n] by (auto simp: list_all_iff dest: is_digit_not_E2)
  then show ?thesis by (simp add: str_int_def)
qed

lemma segments_nonempty: "segments s \<noteq> []"
  by (induction s rule: segments.induct) (auto simp: cons_first_def split: list.splits)

lemma segments_plain: "CHR 0xE2 \<notin> set x \<Longrightarrow> segments x = [x]"
  by (induction x) (auto simp: arrow_def cons_first_def)

lemma segments_arrow: "segments (arrow @ s) = [] # segments s"
  by (simp add: arrow_def)

lemma segments_append: "CHR 0xE2 \<notin> set x \<Longrightarrow> segments (x @ arrow @ s) = x # segments s"
proof (induction x)
  case Nil
  then show ?case using segments_arrow by simp
next
  case (Cons a x)
  then have "\<not> prefix arrow (a # x @ arrow @ s)" by (auto simp: arrow_def)
  with Cons show ?case by (simp add: cons_first_def)
qed

lemma segments_join:
  "xs \<noteq> [] \<Longrightarrow> (\<And>x. x \<in> set xs \<Longrightarrow> CHR 0xE2 \<notin> set x) \<Longrightarrow> segments (join arrow xs) = xs"
proof (induction xs rule: induct_list012)
  case 1
  then show ?case by simp
next
  case (2 x)
  then show ?case by (simp add: segments_plain)
next
  case (3 x y ys)
  then show ?case by (simp add: segments_append)
qed

lemma segments_chain:
  "segments (build_redirect_chain resp) = map str_int (history resp) @ [str_int (status_code resp)]"
proof (cases "history resp = []")
  case True
  then show ?thesis by (simp add: build_redirect_chain_def segments_plain str_int_no_E2)
next
  case False
  then show ?thesis
    by (simp add: build_redirect_chain_def) (rule segments_join, auto simp: str_int_no_E2)
qed

section \<open>The ways a single-URL check returns\<close>

lemma check_one_loop_cases:
  "check_one_loop client hp u args result attempt last_exc elapsed w = (r, w') \<Longrightarrow>
   (\<exists>w0 resp w1.
      do_request client u (primary_headers args) (head_then_get args) w0 = (Inr resp, w1) \<and>
      on_response client hp u args result resp
        ((perf_counter client w1 - perf_counter client w0) * 1000) w1 = (r, w')) \<or>
   (\<exists>w0 e w1.
      do_request client u (primary_headers args) (head_then_get args) w0 = (Inl e, w') \<and>
      r = exhausted args result (Some e)
            ((perf_counter client w' - perf_counter client w0) * 1000)) \<or>
   (\<not> attempt < 1 + retries args \<and> r = exhausted args result last_exc elapsed \<and> w' = w)"
proof (induction client hp u args result attempt last_exc elapsed w rule: check_one_loop.induct)
  case (1 client hp u args result attempt last_exc elapsed w)
  show ?case
  proof (cases "attempt < 1 + retries args")
    case False
    with "1.prems" show ?thesis by (subst (asm) check_one_loop.simps) simp
  next
    case True
    obtain out w1 where req:
      "do_request client u (primary_headers args) (head_then_get args) w = (out, w1)"
      by (cases "do_request client u (primary_headers args) (head_then_get args) w")
    show ?thesis
    proof (cases out)
      case (Inr resp)
      with True req "1.prems" show ?thesis
        by (subst (asm) check_one_loop.simps) (auto simp: Let_def)
    next
      case (Inl e)
      let ?el = "(perf_counter client w1 - perf_counter client w) * 1000"
      let ?w2 = "if attempt < retries args then backoff_sleep client attempt w1 else w1"
      from True req Inl "1.prems"
      have rec: "check_one_loop client hp u args result (attempt + 1) (Some e) ?el ?w2 = (r, w')"
        by (subst (asm) check_one_loop.simps) (simp add: Let_def)
      from "1.IH" [OF True refl req [symmetric] Inl rec] req Inl
      show ?thesis by (auto split: if_splits)
    qed
  qed
qed

lemma classify_error_nonempty: "classify_error x \<noteq> []"
  by (simp add: classify_error_unfold)

lemma generic_error_labelI: "generic_error_label (''ERROR ('' @ name @ '')'')"
  by (simp add: generic_error_label_def)

lemma classify_error_taxonomy: "error_taxonomy (classify_error x)"
  using generic_error_labelI [of "exc_name x"]
  by (simp add: classify_error_unfold error_taxonomy_def)

lemma do_request_cases:
  "do_request client u h b w = (out, w1) \<Longrightarrow>
   (\<exists>m w0. request client m u h w0 = (out, w1))"
  by (auto simp: do_request_def split: if_splits prod.splits sum.splits)

lemma exhausted_fields:
  "final_status_code (exhausted args result x t) = classify_error x"
  "error (exhausted args result x t) = classify_error x"
  "response_time_ms (exhausted args result x t) = t"
  "redirect_chain (exhausted args result x t) = redirect_chain result"
  "redirect_count (exhausted args result x t) = redirect_count result"
  "soft_404 (exhausted args result x t) = soft_404 result"
  "alt_status_code (exhausted args result x t) = alt_status_code result"
  "alt_user_agent_used (exhausted args result x t) = alt_user_agent_used result"
  "input_url (exhausted args result x t) = input_url result"
  by (simp_all add: exhausted_def Let_def)

lemma record_primary_fields:
  "final_status_code (record_primary result resp t l) = str_int (status_code resp)"
  "response_time_ms (record_primary result resp t l) = t"
  "redirect_chain (record_primary result resp t l) = build_redirect_chain resp"
  "redirect_count (record_primary result resp t l) = int (length (history resp))"
  "method_used (record_primary result resp t l) = request_method resp"
  "error (record_primary result resp t l) = error result"
  "alt_status_code (record_primary result resp t l) = alt_status_code result"
  "alt_user_agent_used (record_primary result resp t l) = alt_user_agent_used result"
  "input_url (record_primary result resp t l) = input_url result"
  "soft_404 (record_primary result resp t l) =
     (if request_method resp = ''GET'' \<and> status_code resp = 200
      then detect_soft_404 (headers_get (headers resp) ''content-type'' [])
             (concat (take 8000 (resp_text resp)))
      else soft_404 result)"
  by (simp_all add: record_primary_def Let_def method_from_resp_def)

lemma safari_fallback_cases:
  "safari_fallback client hp u args result resp w = (r, w1) \<Longrightarrow>
   r = result \<or>
   (safari_retry args \<and> (status_code resp = 403 \<or> status_code resp = 404) \<and>
    (\<exists>alt_resp.
       do_request client u (make_headers hp (SAFARI_UA hp)) (head_then_get args) w = (Inr alt_resp, w1) \<and>
       r = (if status_code alt_resp < 400
            then promote (result\<lparr>alt_status_code := str_int (status_code alt_resp),
                                 alt_user_agent_used := ''Safari macOS''\<rparr>) alt_resp
            else result\<lparr>alt_status_code := str_int (status_code alt_resp),
                        alt_user_agent_used := ''Safari macOS''\<rparr>)))"
  by (auto simp: safari_fallback_def Let_def split: if_splits prod.splits sum.splits)

lemma check_one_cases:
  "check_one client hp u args w = (r, w') \<Longrightarrow>
   (\<exists>w0 resp w1.
      do_request client u (primary_headers args) (head_then_get args) w0 = (Inr resp, w1) \<and>
      on_response client hp u args (CheckResult u) resp
        ((perf_counter client w1 - perf_counter client w0) * 1000) w1 = (r, w')) \<or>
   (\<exists>w0 e w1.
      do_request client u (primary_headers args) (head_then_get args) w0 = (Inl e, w') \<and>
      r = exhausted args (CheckResult u) (Some e)
            ((perf_counter client w' - perf_counter client w0) * 1000)) \<or>
   (retries args < 0 \<and> r = exhausted args (CheckResult u) None 0 \<and> w' = w)"
  unfolding check_one_def by (drule check_one_loop_cases) auto

lemma on_response_final_status:
  assumes "on_response client hp u args result resp t w = (r, w1)"
  shows "final_status_code r = str_int (status_code resp) \<or>
         (\<exists>alt_resp w0. do_request client u (make_headers hp (SAFARI_UA hp)) (head_then_get args) w0
                           = (Inr alt_resp, w1) \<and>
            final_status_code r = str_int (status_code alt_resp))"
  using assms unfolding on_response_def
  by (auto dest!: safari_fallback_cases simp: record_primary_fields promote_def split: if_splits)

lemma safari_fallback_keeps:
  assumes "safari_fallback client hp u args result resp w = (r, w1)"
  shows "input_url r = input_url result" and "soft_404 r = soft_404 result"
    and "response_time_ms r = response_time_ms result" and "error r = error result"
  using assms
  by (auto dest!: safari_fallback_cases simp: promote_def split: if_splits)

lemma check_one_input_url:
  "check_one client hp u args w = (r, w1) \<Longrightarrow> input_url r = u"
  by (auto dest!: check_one_cases safari_fallback_keeps(1)
      simp: on_response_def record_primary_fields exhausted_fields CheckResult_def)

lemma do_request_status:
  assumes "\<forall>m u h w resp w1. request client m u h w = (Inr resp, w1) \<longrightarrow>
             100 \<le> status_code resp \<and> status_code resp \<le> 999"
    and "do_request client u h b w = (Inr resp, w1)"
  shows "is_http_status (str_int (status_code resp))"
proof -
  from assms(2) obtain m w0 where "request client m u h w0 = (Inr resp, w1)"
    by (auto dest: do_request_cases)
  with assms(1) show ?thesis by (blast intro: str_int_status)
qed

lemma is_http_status_nonempty: "is_http_status s \<Longrightarrow> s \<noteq> []"
  by (auto simp: is_http_status_def)

lemma error_taxonomy_nonempty: "error_taxonomy s \<Longrightarrow> s \<noteq> []"
  by (auto simp: error_taxonomy_def generic_error_label_def)

lemma check_one_final_status:
  assumes st: "\<forall>m u h w resp w1. request client m u h w = (Inr resp, w1) \<longrightarrow>
             100 \<le> status_code resp \<and> status_code resp \<le> 999"
    and "check_one client hp u args w = (r, w1)"
  shows "is_http_status (final_status_code r) \<or> error_taxonomy (final_status_code r)"
proof -
  consider (ok) w0 resp w2 where
      "do_request client u (primary_headers args) (head_then_get args) w0 = (Inr resp, w2)"
      "on_response client hp u args (CheckResult u) resp
          ((perf_counter client w2 - perf_counter client w0) * 1000) w2 = (r, w1)"
    | (failed) x t where "r = exhausted args (CheckResult u) x t"
    using check_one_cases [OF assms(2)] by (elim disjE exE conjE) auto
  then show ?thesis
  proof cases
    case ok
    from on_response_final_status [OF ok(2)] do_request_status [OF st ok(1)]
    show ?thesis using do_request_status [OF st] by metis
  next
    case failed
    then show ?thesis by (simp add: exhausted_fields classify_error_taxonomy)
  qed
qed

lemma run_tasks_results:
  "run_tasks client hp args cb n urls d w = (rs, w1) \<Longrightarrow>
   list_all2 (\<lambda>u r. \<exists>w0 w2. check_one client hp u args w0 = (r, w2)) urls rs"
proof (induction urls arbitrary: d w rs w1)
  case Nil
  then show ?case by simp
next
  case (Cons u us)
  then show ?case
    by (auto simp: Let_def split: prod.splits)
qed

section \<open>One result for each URL\<close>

text \<open>
  C1. When the server answers with status codes of three digits, the concurrency limit is at
  least 1 and the user agent is given or the default preset exists, \<^verbatim>\<open>_run\<close> returns,
  and it returns one result for each input URL, in the order of the URLs; the final status of
  every result is non-empty, and is a string of three digits or a label of the error
  taxonomy.
\<close>

theorem run_one_result_per_url:
  assumes st: "\<forall>m u h w resp w1. request client m u h w = (Inr resp, w1) \<longrightarrow>
             100 \<le> status_code resp \<and> status_code resp \<le> 999"
    and "1 \<le> concurrency"
    and "user_agent \<noteq> [] \<or> map_of (UA_PRESETS hp) ''Chrome macOS (default)'' \<noteq> None"
  shows "\<exists>results w1.
           run client hp urls concurrency htg n_retries user_agent safari cb w = (Returns results, w1) \<and>
           map input_url results = urls \<and>
           list_all (\<lambda>r. final_status_code r \<noteq> [] \<and>
                       (is_http_status (final_status_code r) \<or> error_taxonomy (final_status_code r)))
             results"
proof -
  obtain ua where ua: "(if user_agent = [] then map_of (UA_PRESETS hp) ''Chrome macOS (default)''
            else Some user_agent) = Some ua"
    using assms(3) by (cases "user_agent = []") auto
  define args where "args = \<lparr>primary_headers = make_headers hp ua,
      primary_ua_label = (case find (\<lambda>(name, val). val = ua) (UA_PRESETS hp) of
                             Some (name, val) \<Rightarrow> name
                           | None \<Rightarrow> ''Custom''),
      head_then_get = htg, retries = n_retries, safari_retry = safari\<rparr>"
  obtain rs w1 where rt: "run_tasks client hp args cb (int (length urls)) urls 0 w = (rs, w1)"
    by (cases "run_tasks client hp args cb (int (length urls)) urls 0 w")
  have run: "run client hp urls concurrency htg n_retries user_agent safari cb w = (Returns rs, w1)"
    using assms(2) ua rt unfolding run_def args_def by (simp add: Let_def)
  from run_tasks_results [OF rt]
  have all: "list_all2 (\<lambda>u r. \<exists>w0 w2. check_one client hp u args w0 = (r, w2)) urls rs" .
  have "list_all2 (\<lambda>u r. input_url r = u) urls rs"
    by (rule list_all2_mono [OF all]) (auto dest: check_one_input_url)
  then have urls: "map input_url rs = urls"
    by (induction rule: list_all2_induct) auto
  have "list_all2 (\<lambda>u r. is_http_status (final_status_code r) \<or> error_taxonomy (final_status_code r))
          urls rs"
    by (rule list_all2_mono [OF all]) (use check_one_final_status [OF st] in blast)
  then have "list_all (\<lambda>r. final_status_code r \<noteq> [] \<and>
                       (is_http_status (final_status_code r) \<or> error_taxonomy (final_status_code r))) rs"
    by (induction rule: list_all2_induct)
      (auto dest: is_http_status_nonempty error_taxonomy_nonempty)
  with run urls show ?thesis by blast
qed

theorem run_one_result_per_url_witness:
  "\<exists>results w1.
     run picky_server demo_headers [''https://example.com/a'', ''https://example.com/b''] 10 True 1 []
       True None 0 = (Returns results, w1) \<and>
     map input_url results = [''https://example.com/a'', ''https://example.com/b''] \<and>
     list_all (\<lambda>r. final_status_code r \<noteq> [] \<and>
                 (is_http_status (final_status_code r) \<or> error_taxonomy (final_status_code r)))
       results"
proof (rule run_one_result_per_url)
  show "\<forall>m u h w resp w1. request picky_server m u h w = (Inr resp, w1) \<longrightarrow>
          100 \<le> status_code resp \<and> status_code resp \<le> 999"
    by (auto simp: picky_server_def server_def page_def split: if_splits)
  show "(1::int) \<le> 10" by simp
  show "[] \<noteq> [] \<or> map_of (UA_PRESETS demo_headers) ''Chrome macOS (default)'' \<noteq> None"
    by (simp add: demo_headers_def)
qed

section \<open>Facts about the parts of a single-URL check\<close>

lemmas eval_defs = check_one_def check_one_loop.simps server_def demo_args_def demo_headers_def
  page_def do_request_def Let_def on_response_def safari_fallback_def record_primary_def
  promote_def CheckResult_def exhausted_def backoff_sleep_def get_first_status_def
  build_redirect_chain_def method_from_resp_def str_int_def str_nat.simps digit_char_def
  classify_error_def exc_name_def exc_str_def lower_def lower_char_def



lemma on_response_chain:
  assumes "on_response client hp u args result resp t w = (r, w1)"
  shows "int (length (segments (redirect_chain r))) = redirect_count r + 1 \<and>
         last (segments (redirect_chain r)) = final_status_code r"
  using assms unfolding on_response_def
  by (auto dest!: safari_fallback_cases
      simp: record_primary_fields promote_def segments_chain split: if_splits)








section \<open>The soft-404 flag\<close>




section \<open>The alternate identity\<close>



section \<open>Timeouts on every attempt\<close>




section \<open>The redirect chain\<close>

text \<open>
  C8, as amended. For a result without an error label (a probe returned a response), the
  redirect chain has \<open>redirect_count + 1\<close> segments between arrows, and the last segment
  is the final status code.
\<close>

theorem redirect_chain_segments:
  assumes "check_one client hp u args w = (r, w')" and "error r = []"
  shows "int (length (segments (redirect_chain r))) = redirect_count r + 1 \<and>
         last (segments (redirect_chain r)) = final_status_code r"
proof -
  have "error (exhausted args (CheckResult u) x t) \<noteq> []" for x t
    by (simp add: exhausted_fields classify_error_nonempty)
  with check_one_cases [OF assms(1)] assms(2) obtain w0 resp w1 where
    "on_response client hp u args (CheckResult u) resp
          ((perf_counter client w1 - perf_counter client w0) * 1000) w1 = (r, w')"
    by (elim disjE exE conjE) auto
  from on_response_chain [OF this] show ?thesis .
qed

theorem redirect_chain_segments_witness:
  "error promoted = [] \<and>
   int (length (segments (redirect_chain promoted))) = redirect_count promoted + 1 \<and>
   last (segments (redirect_chain promoted)) = final_status_code promoted"
proof -
  let ?c = "check_one picky_server demo_headers ''https://example.com/a'' demo_args 0"
  have e: "error (fst ?c) = []"
    by (simp add: picky_server_def eval_defs)
  have "?c = (fst ?c, snd ?c)" by simp
  from redirect_chain_segments [OF this e] e show ?thesis
    by (simp add: promoted_def)
qed

text \<open>
  C8 as stated fails on the result of a URL whose every attempt fails: the redirect chain
  is empty, so its only segment is the empty string, and the final status is the error
  label.
\<close>

theorem redirect_chain_of_failure_counterexample:
  "final_status_code timed_out = ''TIMEOUT'' \<and> error timed_out = ''TIMEOUT'' \<and>
   redirect_count timed_out = 0 \<and> segments (redirect_chain timed_out) = [[]] \<and>
   last (segments (redirect_chain timed_out)) \<noteq> final_status_code timed_out"
  by (simp add: timed_out_def timeout_server_def eval_defs)

section \<open>The response time\<close>

text \<open>
  C9, as amended. With a retry count of at least 0, the response time of a result is the
  time measured around the primary probe of the last attempt: the attempt whose response
  produced the result, or, when all attempts failed, the last failing attempt, after which
  nothing more happens. The Safari probe is not timed, and a promotion leaves the response
  time as it is.
\<close>

theorem response_time_of_primary_probe:
  assumes "check_one client hp u args w = (r, w')" and "0 \<le> retries args"
  shows "\<exists>w0 out w1.
           do_request client u (primary_headers args) (head_then_get args) w0 = (out, w1) \<and>
           response_time_ms r = (perf_counter client w1 - perf_counter client w0) * 1000 \<and>
           (case out of
              Inr resp \<Rightarrow>
                on_response client hp u args (CheckResult u) resp
                  ((perf_counter client w1 - perf_counter client w0) * 1000) w1 = (r, w')
            | Inl e \<Rightarrow>
                w' = w1 \<and> final_status_code r = classify_error (Some e) \<and>
                error r = classify_error (Some e))"
proof -
  consider (ok) w0 resp w1 where
      "do_request client u (primary_headers args) (head_then_get args) w0 = (Inr resp, w1)"
      "on_response client hp u args (CheckResult u) resp
          ((perf_counter client w1 - perf_counter client w0) * 1000) w1 = (r, w')"
    | (failed) w0 e where
      "do_request client u (primary_headers args) (head_then_get args) w0 = (Inl e, w')"
      "r = exhausted args (CheckResult u) (Some e)
             ((perf_counter client w' - perf_counter client w0) * 1000)"
    using check_one_cases [OF assms(1)] assms(2) by (elim disjE exE conjE) auto
  then show ?thesis
  proof cases
    case ok
    from ok(2) have "response_time_ms r = (perf_counter client w1 - perf_counter client w0) * 1000"
      unfolding on_response_def
      by (auto dest!: safari_fallback_keeps(3) simp: record_primary_fields)
    with ok show ?thesis
      by (intro exI [of _ w0] exI [of _ "Inr resp"] exI [of _ w1]) simp
  next
    case failed
    then show ?thesis
      by (intro exI [of _ w0] exI [of _ "Inl e"] exI [of _ w']) (simp add: exhausted_fields)
  qed
qed

theorem response_time_of_primary_probe_witness:
  "\<exists>w0 out w1.
     do_request timeout_server ''https://example.com/a'' (primary_headers demo_args)
       (head_then_get demo_args) w0 = (out, w1) \<and>
     response_time_ms timed_out
       = (perf_counter timeout_server w1 - perf_counter timeout_server w0) * 1000 \<and>
     response_time_ms timed_out = 15000"
proof -
  let ?c = "check_one timeout_server demo_headers ''https://example.com/a'' demo_args 0"
  have t: "response_time_ms (fst ?c) = 15000"
    by (simp add: timeout_server_def eval_defs)
  have "?c = (fst ?c, snd ?c)" and "0 \<le> retries demo_args"
    by (simp_all add: demo_args_def)
  from response_time_of_primary_probe [OF this] t show ?thesis
    unfolding timed_out_def by auto
qed

text \<open>
  C9 as stated fails on a promoted result: the primary probe takes 10 milliseconds and the
  Safari probe, from 0.01 to 0.06 seconds, takes 50; the result carries the values of the
  Safari response and a response time of 10 milliseconds.
\<close>

theorem response_time_after_promotion_counterexample:
  "user_agent_used promoted = ''Safari macOS (retry)'' \<and>
   final_status_code promoted = ''200'' \<and>
   do_request picky_server ''https://example.com/a'' (primary_headers demo_args) False 0
     = (Inr (page 404 ''GET'' ''https://example.com/a'' ''gone''), 1 / 100) \<and>
   do_request picky_server ''https://example.com/a'' (make_headers demo_headers (SAFARI_UA demo_headers))
     False (1 / 100)
     = (Inr (page 200 ''GET'' ''https://example.com/a'' ''<h1>Page Not Found</h1>''), 6 / 100) \<and>
   response_time_ms promoted = (1 / 100 - 0) * 1000 \<and>
   response_time_ms promoted \<noteq> (6 / 100 - 1 / 100) * 1000"
  by (simp add: promoted_def picky_server_def eval_defs)

section \<open>Facts about the resolver\<close>

lemma site_fields:
  "http_get (site pages docs) u h w =
     (case map_of pages u of Some b \<Rightarrow> Inr b
      | None \<Rightarrow> Inl (Exc ''HTTPStatusError'' ''404 Not Found''), Suc w)"
  "gzip_decompress (site pages docs) b = None"
  "etree_fromstring (site pages docs) b = (case map_of docs b of Some e \<Rightarrow> Root e | None \<Rightarrow> NoRoot)"
  "progress_callback (site pages docs) = None"
  by (simp_all add: site_def)

lemma logging_fields:
  "http_get (logging web) u h (w, trace) =
     (case http_get web u h w of (out, w1) \<Rightarrow> (out, (w1, trace @ [u])))"
  "gzip_decompress (logging web) = gzip_decompress web"
  "etree_fromstring (logging web) = etree_fromstring web"
  "progress_callback (logging web) =
     map_option (\<lambda>cb msg (w, trace). (cb msg w, trace)) (progress_callback web)"
  by (simp_all add: logging_def)

lemmas sm_eval = parse_sitemap.simps raw_sitemap.simps
  acquire_def decompress_if_gz_def parse_xml_def notify_def loc_texts_def strip_ns_def strip_def
  is_space_def site_fields logging_fields urlset_doc_def index_doc_def entry_def ns_def
  MAX_DEPTH_def demo_headers_def Let_def

lemma first_seen_Nil: "first_seen [] = []"
  by (simp add: first_seen_def)

lemma first_seen_snoc:
  "first_seen (xs @ [x]) = (if x \<in> set xs then first_seen xs else first_seen xs @ [x])"
  by (simp add: first_seen_def)

lemma set_first_seen: "set (first_seen xs) = set xs"
  by (simp add: first_seen_def)

lemma distinct_first_seen: "distinct (first_seen xs)"
  by (simp add: first_seen_def)

lemma remdups_append_filter:
  "remdups (xs @ ys) = filter (\<lambda>x. x \<notin> set ys) (remdups xs) @ remdups ys"
  by (induction xs) auto

lemma first_seen_append:
  "first_seen (xs @ ys) = first_seen xs @ filter (\<lambda>y. y \<notin> set xs) (first_seen ys)"
  by (simp add: first_seen_def remdups_append_filter rev_filter)

lemma first_seen_distinct: "distinct xs \<Longrightarrow> first_seen xs = xs"
  by (simp add: first_seen_def distinct_remdups_id)

lemma first_seen_idem: "first_seen (first_seen xs) = first_seen xs"
  by (simp add: first_seen_distinct distinct_first_seen)

lemma first_seen_append_first_seen: "first_seen (xs @ first_seen ys) = first_seen (xs @ ys)"
  by (simp add: first_seen_append first_seen_idem)

lemma add_unique_first_seen:
  "add_unique us (first_seen xs, set xs) = (first_seen (xs @ us), set (xs @ us))"
proof (induction us arbitrary: xs)
  case Nil
  then show ?case by simp
next
  case (Cons u us)
  have "add_unique (u # us) (first_seen xs, set xs)
          = add_unique us (first_seen (xs @ [u]), set (xs @ [u]))"
    by (auto simp: first_seen_snoc insert_absorb)
  then show ?case using Cons [of "xs @ [u]"] by simp
qed

lemma add_unique_fresh: "fst (add_unique us ([], {})) = first_seen us"
  using add_unique_first_seen [of us "[]"] by (simp add: first_seen_Nil)

lemma parse_sitemap_refines:
  "parse_sitemap web hp src user_agent visited depth w
     = on_urls first_seen (raw_sitemap web hp src user_agent visited depth w)"
  "index_children web hp locs ua depth (first_seen seq) (set seq) visited w
     = on_urls first_seen (raw_children web hp locs ua depth seq visited w)"
proof (induction web hp src user_agent visited depth w and web hp locs ua depth seq visited w
    rule: raw_sitemap_raw_children.induct)
  case (1 web hp src user_agent visited depth w)
  show ?case
    apply (subst parse_sitemap.simps)
    apply (subst raw_sitemap.simps)
    using "1.IH"
    apply (auto simp: on_urls_def first_seen_Nil add_unique_fresh
        split: option.splits prod.splits sum.splits parsed.splits)
    done
next
  case (2 web hp ua depth seq visited w)
  show ?case by (simp add: on_urls_def)
next
  case (3 web hp child_url rest ua depth seq visited w)
  show ?case
  proof (cases "depth + 1 \<le> MAX_DEPTH \<and> child_url \<notin> visited")
    case False
    then have "index_children web hp (child_url # rest) ua depth (first_seen seq) (set seq) visited w
                 = index_children web hp rest ua depth (first_seen seq) (set seq) visited w"
      and "raw_children web hp (child_url # rest) ua depth seq visited w
                 = raw_children web hp rest ua depth seq visited w"
      by (simp_all only: index_children.simps raw_children.simps if_False)
    with "3.IH"(3) [OF False] show ?thesis by simp
  next
    case True
    obtain r v1 w1 where raw:
      "raw_sitemap web hp (Url child_url) ua visited (depth + 1) w = (r, v1, w1)"
      by (cases "raw_sitemap web hp (Url child_url) ua visited (depth + 1) w")
    with "3.IH"(1) [OF True]
    have ps: "parse_sitemap web hp (Url child_url) ua visited (depth + 1) w
                = on_urls first_seen (r, v1, w1)"
      by simp
    show ?thesis
    proof (cases r)
      case (Inl err)
      with True raw ps show ?thesis by (simp add: on_urls_def)
    next
      case (Inr child_seq)
      from "3.IH"(2) [OF True raw [symmetric] Inr refl]
      have "index_children web hp rest ua depth (first_seen (seq @ child_seq))
              (set (seq @ child_seq)) v1 w1
            = on_urls first_seen (raw_children web hp rest ua depth (seq @ child_seq) v1 w1)" .
      with True raw ps Inr show ?thesis
        by (simp add: on_urls_def add_unique_first_seen first_seen_append_first_seen
            set_first_seen)
    qed
  qed
qed

lemma rel_decreases:
  "parse_sitemap_index_children_rel c' c \<Longrightarrow>
   (c', c) \<in> inv_image (less_than <*lex*> less_than <*lex*> less_than) call_measure"
  by (erule parse_sitemap_index_children_rel.cases) (auto simp: call_measure_def MAX_DEPTH_def)

lemma resolution_total: "parse_sitemap_index_children_dom c"
proof -
  define R :: "(('a, 'b) call \<times> ('a, 'b) call) set"
    where "R = inv_image (less_than <*lex*> less_than <*lex*> less_than) call_measure"
  have "wf R" unfolding R_def by (intro wf_inv_image wf_lex_prod wf_less_than)
  then have "wfP (\<lambda>c' c. (c', c) \<in> R)" by (simp add: wfp_def)
  then have "Wellfounded.accp (\<lambda>c' c. (c', c) \<in> R) c" by (rule accp_wfpD)
  moreover have "parse_sitemap_index_children_rel \<le> (\<lambda>c' c. (c', c) \<in> R)"
    unfolding R_def by (auto dest: rel_decreases)
  ultimately show ?thesis using accp_subset by blast
qed

lemma rel_depth:
  "parse_sitemap_index_children_rel c' c \<Longrightarrow> call_depth c \<le> MAX_DEPTH \<Longrightarrow>
   call_depth c' \<le> MAX_DEPTH"
  by (erule parse_sitemap_index_children_rel.cases) (auto simp: call_depth_def)

lemma rel_star_depth:
  "rtranclp parse_sitemap_index_children_rel c' c \<Longrightarrow> call_depth c \<le> MAX_DEPTH \<Longrightarrow>
   call_depth c' \<le> MAX_DEPTH"
  by (induction rule: converse_rtranclp_induct) (auto dest: rel_depth)

lemma rel_child_guard:
  "parse_sitemap_index_children_rel (Inl (web1, hp1, src1, ua1, visited1, depth1, w1)) c \<Longrightarrow>
   \<exists>child_url rest depth urls seen_order.
      c = Inr (web1, hp1, child_url # rest, ua1, depth, urls, seen_order, visited1, w1) \<and>
      src1 = Url child_url \<and> depth1 = depth + 1 \<and> depth + 1 \<le> MAX_DEPTH \<and>
      child_url \<notin> visited1"
  by (erule parse_sitemap_index_children_rel.cases) auto

lemma keeps_log_logging: "keeps_log (logging web)"
  by (auto simp: keeps_log_def logging_def split: prod.splits)

lemma notify_log: "keeps_log web \<Longrightarrow> snd (notify web msg wl) = snd wl"
  by (cases wl) (auto simp: notify_def keeps_log_def split: option.splits)

lemma run_keeps_refl: "fetched_once visited wl \<Longrightarrow> run_keeps visited wl (r, visited, wl)"
  by (simp add: run_keeps_def)

lemma run_keeps_trans:
  "run_keeps visited wl (r1, v1, wl1) \<Longrightarrow> run_keeps v1 wl1 res \<Longrightarrow> run_keeps visited wl res"
  by (auto simp: run_keeps_def)

lemma run_keeps_result: "run_keeps visited wl (r, v, wl1) \<Longrightarrow> run_keeps visited wl (r', v, wl1)"
  by (simp add: run_keeps_def)

lemma run_keeps_notify:
  "keeps_log web \<Longrightarrow> run_keeps visited wl (r, v, wl1) \<Longrightarrow>
   run_keeps visited wl (r', v, notify web msg wl1)"
  by (simp add: run_keeps_def fetched_once_def notify_log)

lemma acquire_keeps:
  assumes "keeps_log web" and "fetched_once visited wl"
  shows "run_keeps visited wl (acquire web h src visited wl)"
proof (cases src)
  case (Bytes raw)
  with assms show ?thesis by (simp add: acquire_def run_keeps_refl)
next
  case (Url s)
  show ?thesis
  proof (cases "strip s \<in> visited")
    case True
    with Url assms show ?thesis by (simp add: acquire_def run_keeps_refl)
  next
    case False
    let ?wl1 = "notify web (''Fetching '' @ strip s) wl"
    obtain out wl2 where get: "http_get web (strip s) h ?wl1 = (out, wl2)"
      by (cases "http_get web (strip s) h ?wl1")
    with assms(1) have "snd wl2 = snd ?wl1 @ [strip s]"
      unfolding keeps_log_def by (metis snd_conv)
    with assms(1) have l: "snd wl2 = snd wl @ [strip s]" by (simp add: notify_log)
    with assms False have "run_keeps visited wl (r, insert (strip s) visited, wl2)" for r :: "bytes option"
      by (auto simp: run_keeps_def fetched_once_def)
    with Url False get assms(1) show ?thesis
      by (cases out) (auto simp: acquire_def Let_def intro: run_keeps_notify)
  qed
qed

lemma resolver_keeps:
  "keeps_log web \<Longrightarrow> fetched_once visited w \<Longrightarrow>
   run_keeps visited w (parse_sitemap web hp src user_agent visited depth w)"
  "keeps_log web \<Longrightarrow> fetched_once visited w \<Longrightarrow>
   run_keeps visited w (index_children web hp locs ua depth urls seen_order visited w)"
proof (induction web hp src user_agent visited depth w and web hp locs ua depth urls seen_order visited w
    rule: parse_sitemap_index_children.induct)
  case (1 web hp src user_agent visited depth w)
  show ?case
  proof (cases "if user_agent = [] then map_of (UA_PRESETS hp) ''Chrome macOS (default)''
                else Some user_agent")
    case None
    with 1 show ?thesis by (subst parse_sitemap.simps) (simp add: run_keeps_refl)
  next
    case (Some x2)
    obtain x v1 w1 where acq: "acquire web (make_headers hp x2) src visited w = (x, v1, w1)"
      by (cases "acquire web (make_headers hp x2) src visited w")
    with acquire_keeps [OF "1.prems", of "make_headers hp x2" src]
    have k: "run_keeps visited w (x, v1, w1)" by simp
    then have f: "fetched_once v1 w1" by (simp add: run_keeps_def)
    show ?thesis
    proof (cases x)
      case None
      with Some acq k show ?thesis
        by (subst parse_sitemap.simps) (auto intro: run_keeps_result)
    next
      case (Some raw)
      note raw = this
      show ?thesis
      proof (cases "decompress_if_gz (gzip_decompress web) raw")
        case (Inl err)
        with \<open>_ = Some x2\<close> acq raw k show ?thesis
          by (subst parse_sitemap.simps) (auto intro: run_keeps_result)
      next
        case (Inr xml)
        show ?thesis
        proof (cases "parse_xml (etree_fromstring web) xml")
          case (ParseRaised e)
          with \<open>_ = Some x2\<close> acq raw Inr k "1.prems"(1) show ?thesis
            by (subst parse_sitemap.simps) (auto intro: run_keeps_notify)
        next
          case NoRoot
          with \<open>_ = Some x2\<close> acq raw Inr k "1.prems"(1) show ?thesis
            by (subst parse_sitemap.simps) (auto intro: run_keeps_notify)
        next
          case (Root root_el)
          show ?thesis
          proof (cases "strip_ns (el_tag root_el) = ''sitemapindex''")
            case True
            from "1.IH" [OF \<open>_ = Some x2\<close> acq [symmetric] raw refl Inr Root True "1.prems"(1) f]
            have "run_keeps v1 w1
                    (index_children web hp (loc_texts ''sitemap'' root_el) x2 depth [] {} v1 w1)"
              by simp
            from run_keeps_trans [OF k this] \<open>_ = Some x2\<close> acq raw Inr Root True show ?thesis
              by (subst parse_sitemap.simps) simp
          next
            case False
            with \<open>_ = Some x2\<close> acq raw Inr Root k "1.prems"(1) show ?thesis
              by (subst parse_sitemap.simps) (auto intro: run_keeps_notify run_keeps_result)
          qed
        qed
      qed
    qed
  qed
next
  case (2 web hp ua depth urls seen_order visited w)
  then show ?case by (simp add: run_keeps_refl)
next
  case (3 web hp child_url rest ua depth urls seen_order visited w)
  show ?case
  proof (cases "depth + 1 \<le> MAX_DEPTH \<and> child_url \<notin> visited")
    case False
    then have "index_children web hp (child_url # rest) ua depth urls seen_order visited w
                 = index_children web hp rest ua depth urls seen_order visited w"
      by (simp only: index_children.simps if_False)
    with "3.IH"(3) [OF False "3.prems"] show ?thesis by simp
  next
    case True
    obtain r v1 w1 where ps:
      "parse_sitemap web hp (Url child_url) ua visited (depth + 1) w = (r, v1, w1)"
      by (cases "parse_sitemap web hp (Url child_url) ua visited (depth + 1) w")
    with "3.IH"(1) [OF True "3.prems"] have k: "run_keeps visited w (r, v1, w1)" by simp
    then have f: "fetched_once v1 w1" by (simp add: run_keeps_def)
    show ?thesis
    proof (cases r)
      case (Inl err)
      with True ps k show ?thesis by simp
    next
      case (Inr child_urls)
      obtain urls1 seen1 where au: "add_unique child_urls (urls, seen_order) = (urls1, seen1)"
        by (cases "add_unique child_urls (urls, seen_order)")
      from "3.IH"(2) [OF True ps [symmetric] Inr refl au [symmetric] "3.prems"(1) f]
      have "run_keeps v1 w1 (index_children web hp rest ua depth urls1 seen1 v1 w1)" by simp
      from run_keeps_trans [OF k this] True ps Inr au show ?thesis by simp
    qed
  qed
qed

lemma revisit_is_empty:
  assumes "strip s \<in> visited"
    and "ua \<noteq> [] \<or> map_of (UA_PRESETS hp) ''Chrome macOS (default)'' \<noteq> None"
  shows "parse_sitemap web hp (Url s) ua visited d w = (Inr [], visited, w)"
proof -
  from assms(2) obtain x where
    "(if ua = [] then map_of (UA_PRESETS hp) ''Chrome macOS (default)'' else Some ua) = Some x"
    by (cases "ua = []") auto
  with assms(1) show ?thesis
    by (subst parse_sitemap.simps) (simp add: acquire_def)
qed

lemma visited_children_skipped:
  "set locs \<subseteq> visited \<Longrightarrow>
   index_children web hp locs ua d urls seen_order visited w = (Inr urls, visited, w)"
  by (induction locs) simp_all

section \<open>The resolved list\<close>

text \<open>
  C6. Whenever \<^verbatim>\<open>parse_sitemap\<close> returns a list of URLs, the list has no repetition, and it
  is the depth-first traversal in document order with every URL kept where it is first seen:
  the traversal that lists all locations returns too, with the same visited set and world,
  and the list is its \<open>first_seen\<close>.
\<close>

theorem resolved_urls_first_seen:
  assumes "parse_sitemap web hp src user_agent visited depth w = (Inr urls, visited1, w1)"
  shows "distinct urls \<and>
         (\<exists>seq. raw_sitemap web hp src user_agent visited depth w = (Inr seq, visited1, w1) \<and>
                urls = first_seen seq)"
proof -
  obtain r v2 w2 where raw: "raw_sitemap web hp src user_agent visited depth w = (r, v2, w2)"
    by (cases "raw_sitemap web hp src user_agent visited depth w")
  with assms parse_sitemap_refines(1) [of web hp src user_agent visited depth w]
  have "on_urls first_seen (r, v2, w2) = (Inr urls, visited1, w1)" by simp
  then obtain seq where "r = Inr seq" "urls = first_seen seq" "v2 = visited1" "w2 = w1"
    by (cases r) (auto simp: on_urls_def)
  with raw show ?thesis by (simp add: distinct_first_seen)
qed

text \<open>
  Scenario A: the uploaded \<^verbatim>\<open>urlset\<close> lists \<open>a\<close>, \<open>b\<close> (with blanks around it), \<open>a\<close> again
  and \<open>c\<close>; the resolver returns \<open>a\<close>, \<open>b\<close>, \<open>c\<close>.
\<close>

theorem resolved_urls_first_seen_witness:
  "parse_sitemap scenario_a demo_headers (Bytes [0x3c, 0x75]) [] {} 0 0
     = (Inr [''https://example.com/a'', ''https://example.com/b'', ''https://example.com/c''],
        {}, 0) \<and>
   raw_sitemap scenario_a demo_headers (Bytes [0x3c, 0x75]) [] {} 0 0
     = (Inr [''https://example.com/a'', ''https://example.com/b'', ''https://example.com/a'',
             ''https://example.com/c''], {}, 0) \<and>
   distinct [''https://example.com/a'', ''https://example.com/b'', ''https://example.com/c''] \<and>
   [''https://example.com/a'', ''https://example.com/b'', ''https://example.com/c'']
     = first_seen [''https://example.com/a'', ''https://example.com/b'', ''https://example.com/a'',
                   ''https://example.com/c'']"
proof -
  have p: "parse_sitemap scenario_a demo_headers (Bytes [0x3c, 0x75]) [] {} 0 0
     = (Inr [''https://example.com/a'', ''https://example.com/b'', ''https://example.com/c''],
        {}, 0)"
    by (simp add: scenario_a_def sm_eval)
  have r: "raw_sitemap scenario_a demo_headers (Bytes [0x3c, 0x75]) [] {} 0 0
     = (Inr [''https://example.com/a'', ''https://example.com/b'', ''https://example.com/a'',
             ''https://example.com/c''], {}, 0)"
    by (simp add: scenario_a_def sm_eval)
  from resolved_urls_first_seen [OF p] obtain seq where
    d: "distinct [''https://example.com/a'', ''https://example.com/b'', ''https://example.com/c'']"
    and s: "raw_sitemap scenario_a demo_headers (Bytes [0x3c, 0x75]) [] {} 0 0 = (Inr seq, {}, 0)"
    and f: "[''https://example.com/a'', ''https://example.com/b'', ''https://example.com/c'']
              = first_seen seq"
    by blast
  from s r have "seq = [''https://example.com/a'', ''https://example.com/b'',
      ''https://example.com/a'', ''https://example.com/c'']"
    by simp
  with p r d f show ?thesis by blast
qed

section \<open>Termination and the depth bound\<close>

text \<open>
  C7. Here \<open>parse_sitemap_index_children_rel c' c\<close> says that the call \<open>c\<close> (of
  \<^verbatim>\<open>parse_sitemap\<close>, or of the loop of its index branch) makes the recursive call \<open>c'\<close>, and
  \<open>parse_sitemap_index_children_dom c\<close> that every chain of recursive calls from \<open>c\<close> is
  finite. Every call terminates, whatever the documents refer to; the bound is 3; a call
  reached from a call whose depth is within the bound has a depth within the bound; and
  \<^verbatim>\<open>parse_sitemap\<close> is called recursively only from the loop, for the location at hand, one
  level deeper, when that depth is within the bound and the location is not in the visited
  set.
\<close>

theorem resolution_terminates_within_depth:
  "parse_sitemap_index_children_dom c \<and> MAX_DEPTH = 3 \<and>
   (rtranclp parse_sitemap_index_children_rel c' c \<longrightarrow> call_depth c \<le> MAX_DEPTH \<longrightarrow>
      call_depth c' \<le> MAX_DEPTH) \<and>
   (parse_sitemap_index_children_rel (Inl (web1, hp1, src1, ua1, visited1, depth1, w1)) c \<longrightarrow>
      (\<exists>child_url rest depth urls seen_order.
          c = Inr (web1, hp1, child_url # rest, ua1, depth, urls, seen_order, visited1, w1) \<and>
          src1 = Url child_url \<and> depth1 = depth + 1 \<and> depth + 1 \<le> MAX_DEPTH \<and>
          child_url \<notin> visited1))"
  using resolution_total [of c] rel_star_depth [of c' c]
    rel_child_guard [of web1 hp1 src1 ua1 visited1 depth1 w1 c]
  by (simp add: MAX_DEPTH_def)

text \<open>
  Two indexes that list each other and themselves: the resolution from the first one
  returns, and the call for the second one is made at depth 1, from the loop at depth 0.
\<close>

theorem resolution_terminates_within_depth_witness:
  "parse_sitemap_index_children_dom
     (Inr (tangled, demo_headers, [''https://example.com/B.xml''], ''Chrome'', 0, [], {},
           {''https://example.com/A.xml''}, 1)) \<and>
   parse_sitemap_index_children_rel
     (Inl (tangled, demo_headers, Url ''https://example.com/B.xml'', ''Chrome'',
           {''https://example.com/A.xml''}, 1, 1))
     (Inr (tangled, demo_headers, [''https://example.com/B.xml''], ''Chrome'', 0, [], {},
           {''https://example.com/A.xml''}, 1)) \<and>
   call_depth
     (Inl (tangled, demo_headers, Url ''https://example.com/B.xml'', ''Chrome'',
           {''https://example.com/A.xml''}, 1 :: int, 1 :: nat)) \<le> MAX_DEPTH \<and>
   parse_sitemap tangled demo_headers (Url ''https://example.com/A.xml'') [] {} 0 0
     = (Inr [''https://example.com/1'', ''https://example.com/2''],
        {''https://example.com/A.xml'', ''https://example.com/B.xml'', ''https://example.com/U.xml'',
         ''https://example.com/X.xml''}, 4)"
proof -
  let ?c = "Inr (tangled, demo_headers, [''https://example.com/B.xml''], ''Chrome'', 0 :: int, [], {},
           {''https://example.com/A.xml''}, 1 :: nat)"
  let ?c' = "Inl (tangled, demo_headers, Url ''https://example.com/B.xml'', ''Chrome'',
           {''https://example.com/A.xml''}, 1 :: int, 1 :: nat)"
  have rel: "parse_sitemap_index_children_rel ?c' ?c"
    using parse_sitemap_index_children_rel.intros(2)
      [of 0 "''https://example.com/B.xml''" "{''https://example.com/A.xml''}" tangled
        demo_headers "''Chrome''" 1 "[]" "[]" "{}"]
    by (simp add: MAX_DEPTH_def)
  then have star: "rtranclp parse_sitemap_index_children_rel ?c' ?c" by blast
  have d0: "call_depth ?c \<le> MAX_DEPTH" by (simp add: call_depth_def MAX_DEPTH_def)
  have p: "parse_sitemap tangled demo_headers (Url ''https://example.com/A.xml'') [] {} 0 0
     = (Inr [''https://example.com/1'', ''https://example.com/2''],
        {''https://example.com/A.xml'', ''https://example.com/B.xml'', ''https://example.com/U.xml'',
         ''https://example.com/X.xml''}, 4)"
    by (simp add: tangled_def sm_eval insert_commute)
  from resolution_terminates_within_depth [of ?c ?c'] star d0 rel p show ?thesis by blast
qed

section \<open>Every sitemap is fetched once\<close>

text \<open>
  C10. Take a run of \<^verbatim>\<open>parse_sitemap\<close> on a web that logs its fetches, from a state where the
  URLs fetched so far are all different and all in the visited set (at the start of a
  resolution both are empty). Whether the run returns a list or raises, the URLs fetched
  are again all different and all in the visited set, so no URL has been fetched twice,
  also not one whose fetch failed; nothing was removed from the visited set or the log. Any
  later reference to a visited URL contributes nothing and fetches nothing: a call of
  \<^verbatim>\<open>parse_sitemap\<close> for it returns the empty list, and the loop of an index whose children
  are all visited returns the list it had, each with the visited set, the world and the
  log unchanged.
\<close>

theorem each_sitemap_fetched_once:
  assumes "parse_sitemap (logging web) hp src user_agent visited depth (w, fetched)
             = (res, visited1, (w1, fetched1))"
    and "fetched_once visited (w, fetched)"
  shows "distinct fetched1 \<and> set fetched1 \<subseteq> visited1 \<and> visited \<subseteq> visited1 \<and>
         prefix fetched fetched1 \<and>
         (\<forall>s ua d.
            strip s \<in> visited1 \<and>
            (ua \<noteq> [] \<or> map_of (UA_PRESETS hp) ''Chrome macOS (default)'' \<noteq> None) \<longrightarrow>
            parse_sitemap (logging web) hp (Url s) ua visited1 d (w1, fetched1)
              = (Inr [], visited1, (w1, fetched1))) \<and>
         (\<forall>locs ua d urls seen_order.
            set locs \<subseteq> visited1 \<longrightarrow>
            index_children (logging web) hp locs ua d urls seen_order visited1 (w1, fetched1)
              = (Inr urls, visited1, (w1, fetched1)))"
proof -
  from resolver_keeps(1) [OF keeps_log_logging [of web] assms(2),
      where hp = hp and src = src and user_agent = user_agent and depth = depth] assms(1)
  have "run_keeps visited (w, fetched) (res, visited1, (w1, fetched1))" by simp
  then show ?thesis
    by (simp add: run_keeps_def fetched_once_def revisit_is_empty visited_children_skipped)
qed

text \<open>
  The two indexes again, with a \<^verbatim>\<open>urlset\<close> both list and a sitemap \<open>X\<close> that cannot be
  fetched and is listed twice: four fetches, one for each URL, and a later call for \<open>X\<close>
  returns the empty list without a fetch.
\<close>

theorem each_sitemap_fetched_once_witness:
  "fetched_once {} (0 :: nat, []) \<and>
   parse_sitemap (logging tangled) demo_headers (Url ''https://example.com/A.xml'') [] {} 0 (0, [])
     = (Inr [''https://example.com/1'', ''https://example.com/2''],
        {''https://example.com/A.xml'', ''https://example.com/B.xml'', ''https://example.com/U.xml'',
         ''https://example.com/X.xml''},
        (4, [''https://example.com/A.xml'', ''https://example.com/B.xml'',
             ''https://example.com/U.xml'', ''https://example.com/X.xml''])) \<and>
   distinct [''https://example.com/A.xml'', ''https://example.com/B.xml'',
             ''https://example.com/U.xml'', ''https://example.com/X.xml''] \<and>
   parse_sitemap (logging tangled) demo_headers (Url ''https://example.com/X.xml'') ''Chrome''
       {''https://example.com/A.xml'', ''https://example.com/B.xml'', ''https://example.com/U.xml'',
         ''https://example.com/X.xml''} 0
       (4, [''https://example.com/A.xml'', ''https://example.com/B.xml'',
             ''https://example.com/U.xml'', ''https://example.com/X.xml''])
     = (Inr [],
        {''https://example.com/A.xml'', ''https://example.com/B.xml'', ''https://example.com/U.xml'',
         ''https://example.com/X.xml''},
        (4, [''https://example.com/A.xml'', ''https://example.com/B.xml'',
             ''https://example.com/U.xml'', ''https://example.com/X.xml'']))"
proof -
  let ?V = "{''https://example.com/A.xml'', ''https://example.com/B.xml'', ''https://example.com/U.xml'',
         ''https://example.com/X.xml''}"
  let ?L = "[''https://example.com/A.xml'', ''https://example.com/B.xml'',
             ''https://example.com/U.xml'', ''https://example.com/X.xml'']"
  have f: "fetched_once {} (0 :: nat, [])" by (simp add: fetched_once_def)
  have p: "parse_sitemap (logging tangled) demo_headers (Url ''https://example.com/A.xml'') [] {} 0
             (0, [])
           = (Inr [''https://example.com/1'', ''https://example.com/2''], ?V, (4, ?L))"
    by (simp add: tangled_def sm_eval insert_commute)
  from each_sitemap_fetched_once [OF p f]
  have d: "distinct ?L"
    and r: "\<forall>s ua d.
            strip s \<in> ?V \<and>
            (ua \<noteq> [] \<or> map_of (UA_PRESETS demo_headers) ''Chrome macOS (default)'' \<noteq> None) \<longrightarrow>
            parse_sitemap (logging tangled) demo_headers (Url s) ua ?V d (4, ?L)
              = (Inr [], ?V, (4, ?L))"
    by blast+
  have "strip ''https://example.com/X.xml'' \<in> ?V"
    by (simp add: strip_def is_space_def)
  with r have "parse_sitemap (logging tangled) demo_headers (Url ''https://example.com/X.xml'')
      ''Chrome'' ?V 0 (4, ?L) = (Inr [], ?V, (4, ?L))"
    by (metis list.distinct(1))
  with f p d show ?thesis by blast
qed

end
